theory Spec2Isabelle
  imports Complex_Main "HOL-Library.Log_Nat"
begin

section \<open>Navigation controller\<close>

text \<open>
  Both pages (\<^verbatim>\<open>PhotoCarouselPage\<close>, \<^verbatim>\<open>VideoCarouselPage\<close>) hold the state
  \<^verbatim>\<open>index\<close> and the constant \<^verbatim>\<open>total = items.length\<close> and define
  \<^verbatim>\<open>
  const go = useCallback((i: number) => {
    setIndex(() => (i + total) % total)
  }, [total])
  const next = useCallback(() => go(index + 1), [go, index])
  const prev = useCallback(() => go(index - 1), [go, index])
  \<close>
  The numbers involved are integer-valued IEEE doubles, modelled by the integers they
  denote: every integer of magnitude up to \<open>2^53 = 9007199254740992\<close> is a double,
  and beyond that the doubles are the multiples of a power of two with a 53-bit
  quotient. The operator \<^verbatim>\<open>%\<close> of JavaScript is the truncating remainder: its
  result has the sign of the dividend and the magnitude \<open>|a| mod |b|\<close>, and it is
  exact. (For \<open>b = 0\<close> JavaScript yields NaN; the item lists of both pages are
  non-empty constants, and every statement below assumes \<open>0 < total\<close>.)
\<close>

definition js_rem :: "int \<Rightarrow> int \<Rightarrow> int" where
  "js_rem a b = sgn a * (\<bar>a\<bar> mod \<bar>b\<bar>)"

text \<open>
  The operator \<^verbatim>\<open>+\<close> rounds the exact sum to the nearest double, a tie going to
  the double with the even quotient. For \<open>|x| > 2^53\<close> with \<open>b\<close> binary digits the
  doubles around \<open>x\<close> are the multiples of \<open>2^e\<close>, \<open>e = b - 53\<close>. (The exponent
  range of a double is not modelled: \<^verbatim>\<open>total\<close> is an array length, below
  \<open>2^32\<close>, and adding it to a finite double never overflows.)
\<close>

definition round_double :: "int \<Rightarrow> int" where
  "round_double x =
     (if \<bar>x\<bar> \<le> 9007199254740992 then x
      else (let e = nat (bitlen \<bar>x\<bar> - 53);
                q = \<bar>x\<bar> div 2 ^ e;
                r = \<bar>x\<bar> mod 2 ^ e
            in sgn x * (2 ^ e * (if 2 * r > 2 ^ e \<or> (2 * r = 2 ^ e \<and> q mod 2 = 1)
                                 then q + 1 else q))))"

definition js_add :: "int \<Rightarrow> int \<Rightarrow> int" where
  "js_add a b = round_double (a + b)"

text \<open>The value that \<^verbatim>\<open>go(i)\<close> stores into \<^verbatim>\<open>index\<close>.\<close>

definition go :: "int \<Rightarrow> int \<Rightarrow> int" where
  "go n i = js_rem (js_add i n) n"

text \<open>
  The value that \<^verbatim>\<open>next()\<close> and \<^verbatim>\<open>prev()\<close> store, as functions of the \<^verbatim>\<open>index\<close>
  of the render in which the callbacks were created.
\<close>

definition next_idx :: "int \<Rightarrow> int \<Rightarrow> int" where
  "next_idx n index = go n (js_add index 1)"

definition prev_idx :: "int \<Rightarrow> int \<Rightarrow> int" where
  "prev_idx n index = go n (js_add index (- 1))"

text \<open>
  The contract as the specification words it,
  \<^verbatim>\<open>currentIndex = ((targetIndex % itemCount) + itemCount) % itemCount\<close>,
  with the same operators.
\<close>

definition goTo_spec :: "int \<Rightarrow> int \<Rightarrow> int" where
  "goTo_spec itemCount targetIndex =
     js_rem (js_add (js_rem targetIndex itemCount) itemCount) itemCount"

text \<open>
  The callbacks close over the \<^verbatim>\<open>index\<close> of the render that created them
  (dependencies \<^verbatim>\<open>[go, index]\<close>), and the updater passed to \<^verbatim>\<open>setIndex\<close> ignores
  the state it is given. A page therefore has the state behind \<^verbatim>\<open>useState(0)\<close> and
  the value of \<^verbatim>\<open>index\<close> in its latest render; a call stores a value computed from
  the latter, and a re-render brings the latter up to date.
\<close>

record page_index =
  index_state :: int
  index_rendered :: int

definition call_next :: "int \<Rightarrow> page_index \<Rightarrow> page_index" where
  "call_next n p = p\<lparr>index_state := next_idx n (index_rendered p)\<rparr>"

definition call_prev :: "int \<Rightarrow> page_index \<Rightarrow> page_index" where
  "call_prev n p = p\<lparr>index_state := prev_idx n (index_rendered p)\<rparr>"

definition rerender :: "page_index \<Rightarrow> page_index" where
  "rerender p = p\<lparr>index_rendered := index_state p\<rparr>"

text \<open>
  The callbacks that the input listener and the progress drivers invoke, and the
  operations that can change the index of a page: the two callbacks (buttons, wheel,
  swipe), the photo timer reaching completion (\<^verbatim>\<open>step\<close> calls \<^verbatim>\<open>next()\<close>) and the
  video's \<^verbatim>\<open>ended\<close> event (\<^verbatim>\<open>onVideoEnded\<close> calls \<^verbatim>\<open>next()\<close>).
\<close>

datatype nav = Next | Prev

fun navigate :: "int \<Rightarrow> nav \<Rightarrow> int \<Rightarrow> int" where
  "navigate n Next index = next_idx n index"
| "navigate n Prev index = prev_idx n index"

datatype index_op = CallNext | CallPrev | PhotoTimerDone | VideoEnded

fun apply_op :: "int \<Rightarrow> index_op \<Rightarrow> int \<Rightarrow> int" where
  "apply_op n CallNext index = navigate n Next index"
| "apply_op n CallPrev index = navigate n Prev index"
| "apply_op n PhotoTimerDone index = navigate n Next index"
| "apply_op n VideoEnded index = navigate n Next index"

text \<open>The index after a sequence of operations, starting from \<^verbatim>\<open>useState(0)\<close>.\<close>

definition run_ops :: "int \<Rightarrow> index_op list \<Rightarrow> int" where
  "run_ops n ops = fold (apply_op n) ops 0"

section \<open>Input listener\<close>

text \<open>
  \<^verbatim>\<open>useWheelAndSwipe(onNext, onPrev)\<close> keeps three refs (\<^verbatim>\<open>touchStartX\<close>,
  \<^verbatim>\<open>touchStartY\<close>, \<^verbatim>\<open>isThrottled\<close>) that survive re-renders and the re-registration
  of its handlers. Client coordinates, wheel deltas and timestamps (milliseconds) are
  JavaScript numbers, modelled as reals. The pending \<^verbatim>\<open>setTimeout\<close> callbacks are
  kept in \<open>timers\<close> as the times at which they fall due, oldest first. A handler
  returns the new refs together with the callback it invoked, if any.
\<close>

record listener =
  touchStartX :: "real option"
  touchStartY :: "real option"
  isThrottled :: bool
  timers :: "real list"

definition listener_init :: listener where
  "listener_init = \<lparr>touchStartX = None, touchStartY = None, isThrottled = False, timers = []\<rparr>"

text \<open>
  \<^verbatim>\<open>
  const onWheel = (e: WheelEvent) => {
    if (isThrottled.current) return
    const delta = e.deltaY
    if (Math.abs(delta) < 20) return
    if (delta > 0) onNext()
    else onPrev()
    isThrottled.current = true
    setTimeout(() => (isThrottled.current = false), 400)
  }
  \<close>
\<close>

definition onWheel :: "real \<Rightarrow> real \<Rightarrow> listener \<Rightarrow> listener \<times> nav option" where
  "onWheel now deltaY s =
     (if isThrottled s then (s, None)
      else if \<bar>deltaY\<bar> < 20 then (s, None)
      else (s\<lparr>isThrottled := True, timers := timers s @ [now + 400]\<rparr>,
            Some (if deltaY > 0 then Next else Prev)))"

text \<open>The oldest pending timeout callback runs: \<^verbatim>\<open>isThrottled.current = false\<close>.\<close>

definition timer_fired :: "listener \<Rightarrow> listener" where
  "timer_fired s = s\<lparr>isThrottled := False, timers := tl (timers s)\<rparr>"

text \<open>
  Reading \<^verbatim>\<open>clientX\<close> of \<^verbatim>\<open>e.touches[0]\<close> or \<^verbatim>\<open>e.changedTouches[0]\<close> throws a
  TypeError when the touch list is empty; the lists are modelled as lists of
  coordinate pairs.
\<close>

datatype js_error = TypeError

definition onTouchStart :: "(real \<times> real) list \<Rightarrow> listener \<Rightarrow> js_error + listener" where
  "onTouchStart touches s =
     (case touches of
        [] \<Rightarrow> Inl TypeError
      | (clientX, clientY) # _ \<Rightarrow>
          Inr (s\<lparr>touchStartX := Some clientX, touchStartY := Some clientY\<rparr>))"

text \<open>
  \<^verbatim>\<open>
  const onTouchEnd = (e: TouchEvent) => {
    if (touchStartX.current == null || touchStartY.current == null) return
    const t = e.changedTouches[0]
    const dx = t.clientX - touchStartX.current
    const dy = t.clientY - touchStartY.current
    const isHorizontal = Math.abs(dx) > Math.abs(dy)
    const threshold = 40
    if (isHorizontal && Math.abs(dx) > threshold) {
      if (dx < 0) onNext()
      else onPrev()
    }
    touchStartX.current = null
    touchStartY.current = null
  }
  \<close>
\<close>

definition onTouchEnd ::
  "(real \<times> real) list \<Rightarrow> listener \<Rightarrow> js_error + (listener \<times> nav option)" where
  "onTouchEnd changedTouches s =
     (case (touchStartX s, touchStartY s) of
        (Some startX, Some startY) \<Rightarrow>
          (case changedTouches of
             [] \<Rightarrow> Inl TypeError
           | (clientX, clientY) # _ \<Rightarrow>
               (let dx = clientX - startX;
                    dy = clientY - startY;
                    isHorizontal = (\<bar>dx\<bar> > \<bar>dy\<bar>);
                    threshold = 40
                in Inr (s\<lparr>touchStartX := None, touchStartY := None\<rparr>,
                        if isHorizontal \<and> \<bar>dx\<bar> > threshold
                        then Some (if dx < 0 then Next else Prev)
                        else None)))
      | _ \<Rightarrow> Inr (s, None))"

text \<open>
  A page wires the listener to its own \<^verbatim>\<open>next\<close> and \<^verbatim>\<open>prev\<close>
  (\<^verbatim>\<open>useWheelAndSwipe(next, prev)\<close>): the state common to both pages is the index
  and the listener's refs, and an invoked callback updates the index.
\<close>

record viewer =
  index :: int
  input :: listener

definition viewer_init :: viewer where
  "viewer_init = \<lparr>index = 0, input = listener_init\<rparr>"

definition invoke :: "int \<Rightarrow> nav option \<Rightarrow> int \<Rightarrow> int" where
  "invoke n cb i = (case cb of None \<Rightarrow> i | Some d \<Rightarrow> navigate n d i)"

definition wheel_event :: "int \<Rightarrow> real \<Rightarrow> real \<Rightarrow> viewer \<Rightarrow> viewer" where
  "wheel_event n now deltaY v =
     (case onWheel now deltaY (input v) of
        (l, cb) \<Rightarrow> \<lparr>index = invoke n cb (index v), input = l\<rparr>)"

definition touch_end_event :: "int \<Rightarrow> (real \<times> real) list \<Rightarrow> viewer \<Rightarrow> js_error + viewer" where
  "touch_end_event n changedTouches v =
     (case onTouchEnd changedTouches (input v) of
        Inl e \<Rightarrow> Inl e
      | Inr (l, cb) \<Rightarrow> Inr \<lparr>index = invoke n cb (index v), input = l\<rparr>)"

text \<open>
  A run of the wheel listener is a list of timestamped events: a wheel event with its
  \<^verbatim>\<open>deltaY\<close>, or the browser running the oldest pending timeout callback. A run is
  feasible when its timestamps do not decrease and a timeout callback runs only when
  one is pending and has fallen due (\<^verbatim>\<open>setTimeout\<close> never runs a callback early; it
  may run it late). \<open>navigations\<close> lists the callbacks invoked during a run, each
  with the time of the wheel event that invoked it.
\<close>

datatype event = Wheel real real | TimerFires real

fun feasible :: "real \<Rightarrow> listener \<Rightarrow> event list \<Rightarrow> bool" where
  "feasible clock s [] = True"
| "feasible clock s (Wheel t deltaY # es) =
     (clock \<le> t \<and> feasible t (fst (onWheel t deltaY s)) es)"
| "feasible clock s (TimerFires t # es) =
     (clock \<le> t \<and> (case timers s of [] \<Rightarrow> False | due # _ \<Rightarrow> due \<le> t)
      \<and> feasible t (timer_fired s) es)"

fun navigations :: "listener \<Rightarrow> event list \<Rightarrow> (real \<times> nav) list" where
  "navigations s [] = []"
| "navigations s (Wheel t deltaY # es) =
     (case onWheel t deltaY s of
        (s', None) \<Rightarrow> navigations s' es
      | (s', Some d) \<Rightarrow> (t, d) # navigations s' es)"
| "navigations s (TimerFires t # es) = navigations (timer_fired s) es"

section \<open>Progress driver of the photo page\<close>

text \<open>
  \<^verbatim>\<open>PhotoCarouselPage\<close> adds to the common state the state \<^verbatim>\<open>progress\<close> and the
  refs \<^verbatim>\<open>startTs\<close> and \<^verbatim>\<open>raf\<close>. Every \<^verbatim>\<open>requestAnimationFrame(step)\<close> stores
  its handle in \<^verbatim>\<open>raf.current\<close> and is preceded by the cancellation or the run of
  the frame requested before, so at most one \<^verbatim>\<open>step\<close> callback is pending at a time:
  \<open>raf_pending\<close> tells whether the frame named by \<^verbatim>\<open>raf.current\<close> is still to run.
\<close>

record photo = viewer +
  progress :: real
  startTs :: real
  raf_pending :: bool

text \<open>
  The buttons call the page's callbacks
  (\<^verbatim>\<open>onClick={(e) => { e.stopPropagation(); next() }}\<close>), which only set the index.
\<close>

definition click_next :: "int \<Rightarrow> photo \<Rightarrow> photo" where
  "click_next n s = s\<lparr>index := next_idx n (index s)\<rparr>"

definition click_prev :: "int \<Rightarrow> photo \<Rightarrow> photo" where
  "click_prev n s = s\<lparr>index := prev_idx n (index s)\<rparr>"

text \<open>
  The width, in percent, that a render gives to the bar of item \<open>i\<close>:
  \<^verbatim>\<open>i === index ? progress * 100 : i < index ? 100 : 0\<close>.
\<close>

definition bar_width :: "photo \<Rightarrow> int \<Rightarrow> real" where
  "bar_width s i = (if i = index s then progress s * 100 else if i < index s then 100 else 0)"

text \<open>
  The effect with dependencies \<^verbatim>\<open>[index, next]\<close>. React runs it after the render
  that shows a changed index has been committed; \<open>now\<close> is what
  \<^verbatim>\<open>performance.now()\<close> returns then.
  \<^verbatim>\<open>
  useEffect(() => {
    cancelAnimationFrame(raf.current || 0)
    setProgress(0)
    startTs.current = performance.now()
    const step = () => { ... }
    raf.current = requestAnimationFrame(step)
    return () => cancelAnimationFrame(raf.current || 0)
  }, [index, next])
  \<close>
\<close>

definition index_effect :: "real \<Rightarrow> photo \<Rightarrow> photo" where
  "index_effect now s = s\<lparr>progress := 0, startTs := now, raf_pending := True\<rparr>"

text \<open>
  \<^verbatim>\<open>
  const step = () => {
    const elapsed = performance.now() - startTs.current
    const durationMs = 5000
    const p = Math.min(1, elapsed / durationMs)
    setProgress(p)
    if (p >= 1) {
      next()
    } else {
      raf.current = requestAnimationFrame(step)
    }
  }
  \<close>
  The result is the new state of the driver and the callback that was invoked.
\<close>

definition step :: "real \<Rightarrow> photo \<Rightarrow> photo \<times> nav option" where
  "step now s =
     (let elapsed = now - startTs s;
          durationMs = 5000;
          p = min 1 (elapsed / durationMs)
      in if p \<ge> 1 then (s\<lparr>progress := p, raf_pending := False\<rparr>, Some Next)
         else (s\<lparr>progress := p, raf_pending := True\<rparr>, None))"

text \<open>
  An animation frame at time \<open>now\<close>: the browser runs \<^verbatim>\<open>step\<close> if it is pending,
  and an invoked \<^verbatim>\<open>next()\<close> sets the index.
\<close>

definition frame :: "int \<Rightarrow> real \<Rightarrow> photo \<Rightarrow> photo \<times> nav option" where
  "frame n now s =
     (if raf_pending s
      then (case step now s of (s', cb) \<Rightarrow> (s'\<lparr>index := invoke n cb (index s')\<rparr>, cb))
      else (s, None))"

text \<open>
  The callbacks invoked by the animation frames at the times \<open>ts\<close> that follow one
  run of the effect, that is, during the display of one item.
\<close>

fun frames :: "int \<Rightarrow> real list \<Rightarrow> photo \<Rightarrow> nav list" where
  "frames n [] s = []"
| "frames n (t # ts) s =
     (case frame n t s of
        (s', None) \<Rightarrow> frames n ts s'
      | (s', Some d) \<Rightarrow> d # frames n ts s')"

text \<open>
  React handles a state update by rendering the page with the new state and, once
  that render is committed, running the effects whose dependencies changed. For the
  photo page this gives the widths that the render draws for the bars of the \<open>n\<close>
  items (\<^verbatim>\<open>images.map((_, i) => ...)\<close>) and the state after the effect, which runs
  if the index differs from the index \<open>shown\<close> by the render before.
\<close>

definition commit :: "int \<Rightarrow> real \<Rightarrow> int \<Rightarrow> photo \<Rightarrow> real list \<times> photo" where
  "commit n now shown s =
     (map (bar_width s) [0..n - 1], if index s = shown then s else index_effect now s)"

section \<open>Progress driver of the video page\<close>

text \<open>
  \<^verbatim>\<open>Segment\<close> reads \<^verbatim>\<open>currentTime\<close> and \<^verbatim>\<open>duration\<close> of its video element. The
  current playback position of a media element is a finite number; its duration is NaN
  while no metadata is loaded and \<^verbatim>\<open>Infinity\<close> for an unbounded stream. The
  JavaScript operations used on these values are modelled on the cases they
  distinguish.
\<close>

datatype js_number = NaN | PosInfinity | NegInfinity | Num real

record video_element =
  currentTime :: real
  duration :: js_number

text \<open>\<^verbatim>\<open>x || 0\<close>: NaN and zero are falsy.\<close>

fun or_zero :: "js_number \<Rightarrow> js_number" where
  "or_zero NaN = Num 0"
| "or_zero (Num d) = (if d = 0 then Num 0 else Num d)"
| "or_zero x = x"

text \<open>\<^verbatim>\<open>Math.max(a, x)\<close> and \<^verbatim>\<open>Math.min(a, x)\<close> for a finite \<open>a\<close>.\<close>

fun math_max :: "real \<Rightarrow> js_number \<Rightarrow> js_number" where
  "math_max a NaN = NaN"
| "math_max a PosInfinity = PosInfinity"
| "math_max a NegInfinity = Num a"
| "math_max a (Num d) = Num (max a d)"

fun math_min :: "real \<Rightarrow> js_number \<Rightarrow> js_number" where
  "math_min a NaN = NaN"
| "math_min a PosInfinity = Num a"
| "math_min a NegInfinity = NegInfinity"
| "math_min a (Num q) = Num (min a q)"

text \<open>\<^verbatim>\<open>c / x\<close> for a finite \<open>c\<close>.\<close>

fun divide_by :: "real \<Rightarrow> js_number \<Rightarrow> js_number" where
  "divide_by c NaN = NaN"
| "divide_by c PosInfinity = Num 0"
| "divide_by c NegInfinity = Num 0"
| "divide_by c (Num d) =
     (if d = 0 then (if c = 0 then NaN else if c > 0 then PosInfinity else NegInfinity)
      else Num (c / d))"

fun times_num :: "js_number \<Rightarrow> real \<Rightarrow> js_number" where
  "times_num (Num p) c = Num (p * c)"
| "times_num x c = (if c = 0 then NaN else if c > 0 then x
               else (case x of PosInfinity \<Rightarrow> NegInfinity | NegInfinity \<Rightarrow> PosInfinity | y \<Rightarrow> y))"

record segment =
  seg_progress :: js_number
  seg_raf_pending :: bool

definition segment_init :: segment where
  "segment_init = \<lparr>seg_progress = Num 0, seg_raf_pending = False\<rparr>"

text \<open>
  \<^verbatim>\<open>
  const update = () => {
    const duration = Math.max(0.01, v.duration || 0)
    const value = Math.min(1, v.currentTime / duration)
    setProgress(value)
    raf.current = requestAnimationFrame(update)
  }
  \<close>
\<close>

definition clamped_duration :: "video_element \<Rightarrow> js_number" where
  "clamped_duration v = math_max 0.01 (or_zero (duration v))"

definition update_value :: "video_element \<Rightarrow> js_number" where
  "update_value v = math_min 1 (divide_by (currentTime v) (clamped_duration v))"

definition update :: "video_element \<Rightarrow> segment \<Rightarrow> segment" where
  "update v sg = sg\<lparr>seg_progress := update_value v, seg_raf_pending := True\<rparr>"

text \<open>
  The effect of \<^verbatim>\<open>Segment\<close>, with dependencies \<^verbatim>\<open>[active, videoRef]\<close>:
  \<^verbatim>\<open>
  const v = videoRef
  if (!v) return
  if (active) {
    cancelAnimationFrame(raf.current || 0)
    raf.current = requestAnimationFrame(update)
  } else {
    cancelAnimationFrame(raf.current || 0)
    setProgress(0)
  }
  \<close>
  and the width, in percent, that \<^verbatim>\<open>Segment\<close> renders:
  \<^verbatim>\<open>active ? progress * 100 : 0\<close>.
\<close>

definition segment_effect :: "bool \<Rightarrow> video_element option \<Rightarrow> segment \<Rightarrow> segment" where
  "segment_effect active videoRef sg =
     (case videoRef of
        None \<Rightarrow> sg
      | Some v \<Rightarrow>
          if active then sg\<lparr>seg_raf_pending := True\<rparr>
          else sg\<lparr>seg_progress := Num 0, seg_raf_pending := False\<rparr>)"

definition segment_width :: "bool \<Rightarrow> segment \<Rightarrow> js_number" where
  "segment_width active sg = (if active then times_num (seg_progress sg) 100 else Num 0)"

text \<open>
  An animation frame of a segment: the browser runs \<^verbatim>\<open>update\<close> if it is pending.
  The callback reads the video element that the effect was given; \<open>v\<close> is the state
  of that element at the time of the frame, and \<open>segment_frames\<close> runs one frame for
  each of its successive states.
\<close>

definition segment_frame :: "video_element \<Rightarrow> segment \<Rightarrow> segment" where
  "segment_frame v sg = (if seg_raf_pending sg then update v sg else sg)"

fun segment_frames :: "video_element list \<Rightarrow> segment \<Rightarrow> segment" where
  "segment_frames [] sg = sg"
| "segment_frames (v # vs) sg = segment_frames vs (segment_frame v sg)"

section \<open>Properties of the navigation controller\<close>

lemmas nav_eval = next_idx_def prev_idx_def go_def js_add_def round_double_def js_rem_def

lemma js_rem_nonneg: "0 \<le> a \<Longrightarrow> 0 < b \<Longrightarrow> js_rem a b = a mod b"
  by (simp add: js_rem_def sgn_if)

lemma js_rem_neg: "a < 0 \<Longrightarrow> js_rem a b = - ((- a) mod \<bar>b\<bar>)"
  by (simp add: js_rem_def sgn_if)

lemma round_double_exact: "\<bar>x\<bar> \<le> 9007199254740992 \<Longrightarrow> round_double x = x"
  by (simp add: round_double_def)

lemma round_double_nonneg:
  assumes "0 \<le> x"
  shows "0 \<le> round_double x"
proof -
  have "0 \<le> x div 2 ^ e" for e :: nat
    using assms by (simp add: pos_imp_zdiv_nonneg_iff)
  then have "0 \<le> (2::int) ^ e * (x div 2 ^ e + 1) \<and> 0 \<le> (2::int) ^ e * (x div 2 ^ e)"
    for e :: nat
    by simp
  with assms show ?thesis
    by (simp add: round_double_def Let_def sgn_if)
qed

lemma js_add_exact: "\<bar>a + b\<bar> \<le> 9007199254740992 \<Longrightarrow> js_add a b = a + b"
  by (simp add: js_add_def round_double_exact)

lemma js_add_nonneg: "0 \<le> a + b \<Longrightarrow> 0 \<le> js_add a b"
  by (simp add: js_add_def round_double_nonneg)

lemma js_add_ge_minus_one:
  assumes "- 1 \<le> a + b"
  shows "- 1 \<le> js_add a b"
proof (cases "0 \<le> a + b")
  case True
  then have "0 \<le> js_add a b" by (rule js_add_nonneg)
  then show ?thesis by simp
next
  case False
  with assms have "a + b = - 1" by simp
  then have "js_add a b = - 1" by (simp add: js_add_exact)
  then show ?thesis by simp
qed

text \<open>Where the addition is exact, \<^verbatim>\<open>go\<close> is the mathematical remainder.\<close>

lemma go_mod:
  "0 < n \<Longrightarrow> - n \<le> i \<Longrightarrow> i + n \<le> 9007199254740992 \<Longrightarrow> go n i = i mod n"
  by (simp add: go_def js_add_exact js_rem_nonneg)

text \<open>Rounding keeps a sum that is not negative from becoming negative.\<close>

lemma go_range:
  assumes "0 < n" and "- n \<le> i"
  shows "0 \<le> go n i \<and> go n i < n"
proof -
  from assms(2) have "0 \<le> js_add i n"
    by (intro js_add_nonneg) simp
  with assms(1) have "go n i = js_add i n mod n"
    by (simp add: go_def js_rem_nonneg)
  with assms(1) show ?thesis by simp
qed

lemma next_idx_range:
  assumes "0 < n" and "0 \<le> i"
  shows "0 \<le> next_idx n i \<and> next_idx n i < n"
proof -
  from assms(2) have "0 \<le> js_add i 1"
    by (intro js_add_nonneg) simp
  with assms(1) have "- n \<le> js_add i 1" by simp
  with assms(1) show ?thesis
    unfolding next_idx_def by (rule go_range)
qed

lemma prev_idx_range:
  assumes "0 < n" and "0 \<le> i"
  shows "0 \<le> prev_idx n i \<and> prev_idx n i < n"
proof -
  from assms(2) have "- 1 \<le> js_add i (- 1)"
    by (intro js_add_ge_minus_one) simp
  with assms(1) have "- n \<le> js_add i (- 1)" by simp
  with assms(1) show ?thesis
    unfolding prev_idx_def by (rule go_range)
qed

lemma next_idx_mod:
  assumes "0 < n" and "0 \<le> i" and "i + 1 + n \<le> 9007199254740992"
  shows "next_idx n i = (i + 1) mod n"
proof -
  from assms have "js_add i 1 = i + 1"
    by (intro js_add_exact) simp
  with assms show ?thesis
    by (simp add: next_idx_def go_mod)
qed

lemma prev_idx_mod:
  assumes "0 < n" and "0 \<le> i" and "i - 1 + n \<le> 9007199254740992"
  shows "prev_idx n i = (i - 1) mod n"
proof -
  from assms have "js_add i (- 1) = i - 1"
    by (simp add: js_add_exact)
  with assms show ?thesis
    by (simp add: prev_idx_def go_mod)
qed

lemma navigate_range:
  "0 < n \<Longrightarrow> 0 \<le> i \<Longrightarrow> 0 \<le> navigate n d i \<and> navigate n d i < n"
  by (cases d) (simp_all add: next_idx_range prev_idx_range)

lemma apply_op_range:
  "0 < n \<Longrightarrow> 0 \<le> i \<Longrightarrow> i < n \<Longrightarrow> 0 \<le> apply_op n x i \<and> apply_op n x i < n"
  by (cases x) (simp_all add: next_idx_range prev_idx_range)

lemma fold_apply_op_range:
  "0 < n \<Longrightarrow> 0 \<le> i \<Longrightarrow> i < n \<Longrightarrow>
   0 \<le> fold (apply_op n) ops i \<and> fold (apply_op n) ops i < n"
proof (induction ops arbitrary: i)
  case Nil
  then show ?case by simp
next
  case (Cons x ops)
  from Cons.prems have "0 \<le> apply_op n x i \<and> apply_op n x i < n"
    by (simp add: apply_op_range)
  with Cons.prems(1) show ?case
    by (simp add: Cons.IH)
qed

text \<open>
  The contract's formula is the mathematical remainder wherever its addition is
  exact.
\<close>

lemma goTo_spec_mod:
  assumes "0 < n" and "n \<le> 9007199254740992" and "i + n \<le> 9007199254740992"
  shows "goTo_spec n i = i mod n"
proof -
  have b: "(- i) mod n < n"
    using assms(1) by (rule pos_mod_bound)
  have r: "0 \<le> js_rem i n + n \<and> js_rem i n + n \<le> 9007199254740992
      \<and> js_rem i n mod n = i mod n"
  proof (cases "0 \<le> i")
    case True
    then have "i mod n \<le> i" by (rule zmod_le_nonneg_dividend)
    with True assms show ?thesis by (simp add: js_rem_nonneg)
  next
    case False
    with assms(1) have "js_rem i n = - ((- i) mod n)"
      by (simp add: js_rem_neg)
    moreover from assms(1) have "0 \<le> (- i) mod n" by simp
    ultimately show ?thesis
      using b assms(2) by (simp add: mod_minus_eq)
  qed
  then have "js_add (js_rem i n) n = js_rem i n + n"
    by (intro js_add_exact) simp
  with r assms(1) have "goTo_spec n i = (js_rem i n + n) mod n"
    by (simp add: goTo_spec_def js_rem_nonneg)
  with r show ?thesis by simp
qed

lemma go_below:
  assumes "0 < n" and "i < - n" and "- 9007199254740992 \<le> i"
  shows "go n i \<le> 0" and "go n i = 0 \<longleftrightarrow> n dvd i"
proof -
  from assms have neg: "i + n < 0" by simp
  from assms have "js_add i n = i + n"
    by (intro js_add_exact) simp
  with neg assms(1) have g: "go n i = - ((- (i + n)) mod n)"
    by (simp add: go_def js_rem_neg)
  from assms(1) have "0 \<le> (- (i + n)) mod n" by simp
  with g show "go n i \<le> 0" by simp
  from g have "go n i = 0 \<longleftrightarrow> n dvd - (i + n)"
    by (simp only: neg_equal_0_iff_equal dvd_eq_mod_eq_0)
  also have "\<dots> \<longleftrightarrow> n dvd i + n"
    by (rule dvd_minus_iff)
  also have "\<dots> \<longleftrightarrow> n dvd i"
    by (rule dvd_add_left_iff) simp
  finally show "go n i = 0 \<longleftrightarrow> n dvd i" .
qed

text \<open>
  Claim C1, as stated: for every item count \<open>n > 0\<close> and every integer target,
  \<^verbatim>\<open>go\<close> stores \<open>((target % n) + n) % n\<close>, a value of \<open>[0, n)\<close>, and targets
  that differ by \<open>n\<close> store the same index. This fails below \<open>- n\<close>: with four
  items, \<^verbatim>\<open>go(-6)\<close> stores \<^verbatim>\<open>(-6 + 4) % 4 = -2\<close>, where the contract's formula
  gives \<open>2\<close>, and \<^verbatim>\<open>go(-6 + 4)\<close> stores \<open>2\<close>. It also fails where the sum
  \<^verbatim>\<open>i + total\<close> is rounded: \<^verbatim>\<open>go(9007199254740991)\<close> adds 4 to \<open>2^53 - 1\<close>, the
  sum is rounded to \<open>2^53 + 4\<close> and the stored index is \<open>0\<close>, where the contract's
  formula gives \<open>3\<close>.
\<close>

theorem go_wraparound_counterexample:
  "go 4 (- 6) = - 2 \<and> goTo_spec 4 (- 6) = 2 \<and> go 4 (- 6) \<noteq> goTo_spec 4 (- 6)
   \<and> \<not> (0 \<le> go 4 (- 6)) \<and> go 4 (- 6) \<noteq> go 4 (- 6 + 4)
   \<and> go 4 9007199254740991 = 0 \<and> goTo_spec 4 9007199254740991 = 3"
  by (simp add: go_def goTo_spec_def js_add_def round_double_def js_rem_def bitlen_def
      compute_floorlog Let_def)

text \<open>
  Claim C1, amended: for every item count \<open>n > 0\<close> and every integer target
  \<open>i \<ge> - n\<close> (which covers every call in the code, all of the form
  \<^verbatim>\<open>go(index + 1)\<close> or \<^verbatim>\<open>go(index - 1)\<close>), \<^verbatim>\<open>go(i)\<close> stores a value of
  \<open>[0, n)\<close>. Where moreover \<open>n \<le> 2^53\<close> and \<open>i + n \<le> 2^53\<close>, so that the
  additions are exact, the value is \<open>((i % n) + n) % n\<close>, and where
  \<open>i + 2 n \<le> 2^53\<close>, \<^verbatim>\<open>go(i)\<close> and \<^verbatim>\<open>go(i + n)\<close> store the same index. For a
  target \<open>i \<ge> - 2^53\<close> below \<open>- n\<close> the stored value agrees with the contract's
  formula only at the multiples of \<open>n\<close>.
\<close>

theorem go_wraparound:
  assumes "0 < n"
  shows "(- n \<le> i \<longrightarrow> 0 \<le> go n i \<and> go n i < n)
       \<and> (- n \<le> i \<and> n \<le> 9007199254740992 \<and> i + n \<le> 9007199254740992 \<longrightarrow>
            go n i = goTo_spec n i)
       \<and> (- n \<le> i \<and> i + 2 * n \<le> 9007199254740992 \<longrightarrow> go n i = go n (i + n))
       \<and> (- 9007199254740992 \<le> i \<and> n \<le> 9007199254740992 \<and> i + n \<le> 9007199254740992 \<longrightarrow>
            (go n i = goTo_spec n i \<longleftrightarrow> - n \<le> i \<or> n dvd i))"
proof -
  have range: "0 \<le> go n i \<and> go n i < n" if "- n \<le> i"
    using assms that by (rule go_range)
  have spec: "go n i = goTo_spec n i"
    if "- n \<le> i" "n \<le> 9007199254740992" "i + n \<le> 9007199254740992"
    using assms that by (simp add: go_mod goTo_spec_mod)
  have period: "go n i = go n (i + n)" if "- n \<le> i" "i + 2 * n \<le> 9007199254740992"
  proof -
    from assms that have "go n i = i mod n"
      by (intro go_mod) simp_all
    moreover from assms that have "go n (i + n) = (i + n) mod n"
      by (intro go_mod) simp_all
    ultimately show ?thesis by simp
  qed
  have below: "go n i = goTo_spec n i \<longleftrightarrow> n dvd i"
    if lt: "i < - n" and lo: "- 9007199254740992 \<le> i"
      and "n \<le> 9007199254740992" "i + n \<le> 9007199254740992"
  proof
    assume eq: "go n i = goTo_spec n i"
    from assms that have "0 \<le> goTo_spec n i" by (simp add: goTo_spec_mod)
    with eq go_below(1) [OF assms lt lo] have "go n i = 0" by simp
    with go_below(2) [OF assms lt lo] show "n dvd i" by simp
  next
    assume d: "n dvd i"
    with go_below(2) [OF assms lt lo] have "go n i = 0" by simp
    moreover from d assms that have "goTo_spec n i = 0" by (simp add: goTo_spec_mod)
    ultimately show "go n i = goTo_spec n i" by simp
  qed
  have iff: "go n i = goTo_spec n i \<longleftrightarrow> - n \<le> i \<or> n dvd i"
    if "- 9007199254740992 \<le> i" "n \<le> 9007199254740992" "i + n \<le> 9007199254740992"
  proof (cases "- n \<le> i")
    case True
    with spec that show ?thesis by simp
  next
    case False
    then have "i < - n" by simp
    with below that False show ?thesis by simp
  qed
  from range spec period iff show ?thesis by blast
qed

theorem go_wraparound_witness:
  "(0::int) < 4 \<and> - 4 \<le> (- 1 :: int) \<and> go 4 (- 1) = goTo_spec 4 (- 1) \<and> go 4 (- 1) = 3
   \<and> go 4 (- 1) = go 4 (- 1 + 4) \<and> go 4 (- 8) = goTo_spec 4 (- 8)
   \<and> go 4 9007199254740988 = goTo_spec 4 9007199254740988"
  using go_wraparound [of 4 "- 1"] go_wraparound [of 4 "- 8"]
    go_wraparound [of 4 9007199254740988]
  by (simp add: go_def js_add_def round_double_def js_rem_def)

text \<open>
  Claim C7, as stated: from every starting index, \<^verbatim>\<open>next()\<close> followed by
  \<^verbatim>\<open>prev()\<close> returns to the starting index. Both callbacks of one render start from
  that render's \<^verbatim>\<open>index\<close>, and the second \<^verbatim>\<open>setIndex\<close> replaces what the first
  stored: with four items shown at index 0, \<^verbatim>\<open>next()\<close> and then \<^verbatim>\<open>prev()\<close>
  called before the page has rendered again store \<^verbatim>\<open>go(0 - 1) = 3\<close>.
\<close>

theorem next_prev_same_render_counterexample:
  "index_state (call_next 4 \<lparr>index_state = 0, index_rendered = 0\<rparr>) = 1
   \<and> index_state (call_prev 4 (call_next 4 \<lparr>index_state = 0, index_rendered = 0\<rparr>)) = 3"
  by (simp add: call_next_def call_prev_def nav_eval)

text \<open>
  Claim C7, amended: for every item count \<open>n > 0\<close> (up to \<open>2^52 = 4503599627370496\<close>,
  which covers every array length) and every starting index in \<open>[0, n)\<close> that the
  page shows, \<^verbatim>\<open>next()\<close> followed, once the page has rendered the new index, by
  \<^verbatim>\<open>prev()\<close> brings the index back to the starting value.
\<close>

theorem next_prev_roundtrip:
  assumes "0 < n" and "n \<le> 4503599627370496" and "0 \<le> i" and "i < n"
    and "index_state p = i" and "index_rendered p = i"
  shows "index_state (call_prev n (rerender (call_next n p))) = i
       \<and> prev_idx n (next_idx n i) = i"
proof -
  have nx: "next_idx n i = (i + 1) mod n"
    using assms by (intro next_idx_mod) simp_all
  from assms(1) have j: "0 \<le> (i + 1) mod n" "(i + 1) mod n < n" by simp_all
  have "prev_idx n ((i + 1) mod n) = ((i + 1) mod n - 1) mod n"
  proof (rule prev_idx_mod)
    show "0 < n" by (rule assms(1))
    show "0 \<le> (i + 1) mod n" by (rule j(1))
    show "(i + 1) mod n - 1 + n \<le> 9007199254740992"
      using j(2) assms(2) by linarith
  qed
  also have "\<dots> = (i + 1 - 1) mod n"
    by (rule mod_diff_left_eq)
  finally have rt: "prev_idx n (next_idx n i) = i"
    using assms nx by simp
  with assms show ?thesis
    by (simp add: call_prev_def call_next_def rerender_def)
qed

theorem next_prev_roundtrip_witness:
  "index_state (call_next 3 \<lparr>index_state = 2, index_rendered = 2\<rparr>) = 0
   \<and> index_state (call_prev 3 (rerender (call_next 3 \<lparr>index_state = 2, index_rendered = 2\<rparr>))) = 2
   \<and> prev_idx 3 (next_idx 3 2) = 2"
  using next_prev_roundtrip [of 3 2 "\<lparr>index_state = 2, index_rendered = 2\<rparr>"]
  by (simp add: call_next_def call_prev_def rerender_def nav_eval)

lemma invoke_range:
  "0 < n \<Longrightarrow> 0 \<le> i \<Longrightarrow> i < n \<Longrightarrow> 0 \<le> invoke n cb i \<and> invoke n cb i < n"
  by (cases cb) (simp_all add: invoke_def navigate_range)

lemma frame_index:
  "index (fst (frame n now s)) = invoke n (snd (frame n now s)) (index s)"
  by (simp add: frame_def step_def Let_def invoke_def)

lemma wheel_event_index:
  "index (wheel_event n now deltaY v) = invoke n (snd (onWheel now deltaY (input v))) (index v)"
  by (simp add: wheel_event_def split: prod.splits)

text \<open>
  Claim C9: starting from index \<open>0\<close> with \<open>n > 0\<close> items, every sequence of the
  operations that can change the index (\<^verbatim>\<open>next()\<close>, \<^verbatim>\<open>prev()\<close>, completion of the
  photo timer, the video's \<^verbatim>\<open>ended\<close> handler) leaves the index in \<open>[0, n)\<close>: each
  single operation, and likewise an animation frame of the photo page and a wheel
  event, maps \<open>[0, n)\<close> into itself.
\<close>

theorem index_in_range:
  assumes "0 < n"
  shows "0 \<le> run_ops n ops \<and> run_ops n ops < n
    \<and> (0 \<le> i \<and> i < n \<longrightarrow> 0 \<le> apply_op n x i \<and> apply_op n x i < n)
    \<and> (0 \<le> index s \<and> index s < n \<longrightarrow>
          0 \<le> index (fst (frame n now s)) \<and> index (fst (frame n now s)) < n)
    \<and> (0 \<le> index v \<and> index v < n \<longrightarrow>
          0 \<le> index (wheel_event n now deltaY v) \<and> index (wheel_event n now deltaY v) < n)"
  using assms
  by (simp add: run_ops_def fold_apply_op_range apply_op_range frame_index wheel_event_index
      invoke_range)

theorem index_in_range_witness:
  "(0::int) < 3 \<and> run_ops 3 [CallNext, CallNext, PhotoTimerDone, CallPrev, CallPrev, VideoEnded] = 2
   \<and> 0 \<le> run_ops 3 [CallNext, CallNext, PhotoTimerDone, CallPrev, CallPrev, VideoEnded]
   \<and> run_ops 3 [CallNext, CallNext, PhotoTimerDone, CallPrev, CallPrev, VideoEnded] < 3
   \<and> apply_op 3 CallPrev 0 = 2
   \<and> index (wheel_event 3 10 (- 30) viewer_init) = 2"
  using index_in_range [of 3 "[CallNext, CallNext, PhotoTimerDone, CallPrev, CallPrev, VideoEnded]"
      0 CallPrev
      "\<lparr>index = 2, input = listener_init, progress = 0, startTs = 0, raf_pending = True\<rparr>" 10
      viewer_init "- 30"]
  by (simp add: run_ops_def nav_eval wheel_event_def onWheel_def
      invoke_def viewer_init_def listener_init_def)

section \<open>Properties of the input listener\<close>

text \<open>
  Claim C4: on touch-end with recorded start coordinates, a callback is invoked if and
  only if \<open>|dx| > |dy|\<close> and \<open>|dx| > 40\<close>; it is \<^verbatim>\<open>next()\<close> if \<open>dx < 0\<close> and
  \<^verbatim>\<open>prev()\<close> otherwise. A swipe of \<open>dx = -50, dy = 5\<close> invokes \<^verbatim>\<open>next()\<close>, a swipe
  of \<open>dx = 20, dy = 5\<close> invokes nothing.
\<close>

theorem touch_end_navigation:
  assumes "touchStartX s = Some sx" and "touchStartY s = Some sy"
  shows "(\<exists>s' cb. onTouchEnd ((x, y) # rest) s = Inr (s', cb)
            \<and> (cb \<noteq> None \<longleftrightarrow> \<bar>x - sx\<bar> > \<bar>y - sy\<bar> \<and> \<bar>x - sx\<bar> > 40)
            \<and> (cb \<noteq> None \<longrightarrow> cb = Some (if x - sx < 0 then Next else Prev)))
       \<and> (\<exists>s'. onTouchEnd ((sx - 50, sy + 5) # rest) s = Inr (s', Some Next))
       \<and> (\<exists>s'. onTouchEnd ((sx + 20, sy + 5) # rest) s = Inr (s', None))"
  using assms by (simp add: onTouchEnd_def Let_def)

theorem touch_end_navigation_witness:
  "onTouchEnd [(150, 305)] (listener_init\<lparr>touchStartX := Some 200, touchStartY := Some 300\<rparr>)
     = Inr (listener_init, Some Next)
   \<and> onTouchEnd [(220, 305)] (listener_init\<lparr>touchStartX := Some 200, touchStartY := Some 300\<rparr>)
     = Inr (listener_init, None)
   \<and> onTouchEnd [(260, 305)] (listener_init\<lparr>touchStartX := Some 200, touchStartY := Some 300\<rparr>)
     = Inr (listener_init, Some Prev)"
  using touch_end_navigation
    [of "listener_init\<lparr>touchStartX := Some 200, touchStartY := Some 300\<rparr>" 200 300 260 305 "[]"]
  by (simp add: onTouchEnd_def listener_init_def Let_def)

text \<open>
  Claim C10: a touch-end that arrives while no start coordinates are recorded returns
  early, whatever the event carries (even an empty touch list): no error, no callback,
  no change of the refs, and the page's index stays as it is.
\<close>

theorem touch_end_without_start:
  assumes "touchStartX s = None \<or> touchStartY s = None"
  shows "onTouchEnd changedTouches s = Inr (s, None)
       \<and> (input v = s \<longrightarrow> touch_end_event n changedTouches v = Inr v)"
  using assms by (auto simp: onTouchEnd_def touch_end_event_def invoke_def split: option.splits)

theorem touch_end_without_start_witness:
  "touchStartX listener_init = None
   \<and> onTouchEnd [] listener_init = Inr (listener_init, None)
   \<and> onTouchEnd [(10, 20)] listener_init = Inr (listener_init, None)
   \<and> touch_end_event 4 [(10, 20)] viewer_init = Inr viewer_init"
  using touch_end_without_start [of listener_init "[]" viewer_init 4]
    touch_end_without_start [of listener_init "[(10, 20)]" viewer_init 4]
  by (simp add: listener_init_def viewer_init_def)

text \<open>
  Claim C6: a wheel event whose \<^verbatim>\<open>deltaY\<close> has magnitude below 20 invokes neither
  \<^verbatim>\<open>next()\<close> nor \<^verbatim>\<open>prev()\<close> and leaves the refs and the index unchanged.
\<close>

theorem small_wheel_ignored:
  assumes "\<bar>deltaY\<bar> < 20"
  shows "onWheel now deltaY s = (s, None) \<and> wheel_event n now deltaY v = v"
  using assms by (simp add: onWheel_def wheel_event_def invoke_def)

theorem small_wheel_ignored_witness:
  "\<bar>- 19.5 :: real\<bar> < 20 \<and> onWheel 1000 (- 19.5) listener_init = (listener_init, None)
   \<and> wheel_event 4 1000 (- 19.5) viewer_init = viewer_init
   \<and> index (wheel_event 4 1000 (- 20) viewer_init) = 3"
  using small_wheel_ignored [of "- 19.5" 1000 listener_init 4 viewer_init]
  by (simp add: onWheel_def wheel_event_def invoke_def listener_init_def viewer_init_def
      nav_eval)

text \<open>
  The wheel throttle. In every state that a run reaches, either the listener is
  throttled and exactly one timeout is pending, or it is not throttled and none is.
\<close>

lemma navigations_spaced_from:
  assumes "feasible clock s es"
    and "if isThrottled s then timers s = [due] else timers s = [] \<and> due \<le> clock"
  shows "sorted_wrt (\<lambda>a b. fst a + 400 \<le> fst b) (navigations s es)
       \<and> (\<forall>x \<in> set (navigations s es). due \<le> fst x)"
  using assms
proof (induction es arbitrary: clock s due)
  case Nil
  then show ?case by simp
next
  case (Cons e es)
  show ?case
  proof (cases e)
    case (Wheel t deltaY)
    from Cons.prems(1) Wheel have t: "clock \<le> t"
      and f: "feasible t (fst (onWheel t deltaY s)) es"
      by simp_all
    show ?thesis
    proof (cases "isThrottled s \<or> \<bar>deltaY\<bar> < 20")
      case True
      then have same: "onWheel t deltaY s = (s, None)"
        by (auto simp: onWheel_def)
      have "if isThrottled s then timers s = [due] else timers s = [] \<and> due \<le> t"
        using Cons.prems(2) t by (auto split: if_splits)
      with f same have "sorted_wrt (\<lambda>a b. fst a + 400 \<le> fst b) (navigations s es)
          \<and> (\<forall>x \<in> set (navigations s es). due \<le> fst x)"
        by (intro Cons.IH [of t s due]) simp_all
      with Wheel same show ?thesis by simp
    next
      case False
      define s' where "s' = s\<lparr>isThrottled := True, timers := timers s @ [t + 400]\<rparr>"
      define d where "d = (if deltaY > 0 then Next else Prev)"
      from False have step: "onWheel t deltaY s = (s', Some d)"
        by (simp add: onWheel_def s'_def d_def)
      from False Cons.prems(2) have idle: "timers s = []" and due: "due \<le> clock"
        by (simp_all split: if_splits)
      have "if isThrottled s' then timers s' = [t + 400] else timers s' = [] \<and> t + 400 \<le> t"
        using idle by (simp add: s'_def)
      with f step have rest: "sorted_wrt (\<lambda>a b. fst a + 400 \<le> fst b) (navigations s' es)
          \<and> (\<forall>x \<in> set (navigations s' es). t + 400 \<le> fst x)"
        by (intro Cons.IH [of t s' "t + 400"]) simp_all
      have "\<forall>x \<in> set (navigations s' es). due \<le> fst x"
      proof
        fix x assume "x \<in> set (navigations s' es)"
        with rest have "t + 400 \<le> fst x" by blast
        with due t show "due \<le> fst x" by simp
      qed
      with Wheel step rest due t show ?thesis by simp
    qed
  next
    case (TimerFires t)
    from Cons.prems(1) TimerFires obtain d ds where pending: "timers s = d # ds"
      and fell_due: "d \<le> t" and f: "feasible t (timer_fired s) es"
      by (auto split: list.splits)
    from pending Cons.prems(2) have "timers s = [due]"
      by (simp split: if_splits)
    with pending fell_due have
      "if isThrottled (timer_fired s) then timers (timer_fired s) = [due]
       else timers (timer_fired s) = [] \<and> due \<le> t"
      by (simp add: timer_fired_def)
    with f have "sorted_wrt (\<lambda>a b. fst a + 400 \<le> fst b) (navigations (timer_fired s) es)
        \<and> (\<forall>x \<in> set (navigations (timer_fired s) es). due \<le> fst x)"
      by (rule Cons.IH)
    with TimerFires show ?thesis by simp
  qed
qed

text \<open>
  Claim C5: once a wheel event has invoked \<^verbatim>\<open>next()\<close> or \<^verbatim>\<open>prev()\<close> the listener is
  throttled until a timeout that falls due 400ms later has run, and a throttled
  listener ignores every wheel event. Hence in every feasible run from the initial
  state any two navigations are at least 400ms apart: two wheel events less than 400ms
  apart produce at most one navigation.
\<close>

theorem wheel_throttle:
  assumes "feasible clock listener_init es"
  shows "sorted_wrt (\<lambda>a b. fst a + 400 \<le> fst b) (navigations listener_init es)
       \<and> (isThrottled s \<longrightarrow> onWheel now deltaY s = (s, None))
       \<and> (\<not> isThrottled s \<and> 20 \<le> \<bar>deltaY\<bar> \<longrightarrow>
            isThrottled (fst (onWheel now deltaY s))
            \<and> timers (fst (onWheel now deltaY s)) = timers s @ [now + 400])"
proof -
  have "if isThrottled listener_init then timers listener_init = [clock]
        else timers listener_init = [] \<and> clock \<le> clock"
    by (simp add: listener_init_def)
  with assms have "sorted_wrt (\<lambda>a b. fst a + 400 \<le> fst b) (navigations listener_init es)"
    using navigations_spaced_from [of clock listener_init es clock] by blast
  then show ?thesis
    by (simp add: onWheel_def)
qed

theorem wheel_throttle_witness:
  "feasible 0 listener_init
     [Wheel 100 30, Wheel 250 45, Wheel 499 (- 60), TimerFires 503, Wheel 510 (- 25), Wheel 900 80]
   \<and> navigations listener_init
     [Wheel 100 30, Wheel 250 45, Wheel 499 (- 60), TimerFires 503, Wheel 510 (- 25), Wheel 900 80]
     = [(100, Next), (510, Prev)]
   \<and> sorted_wrt (\<lambda>a b. fst a + 400 \<le> fst b) (navigations listener_init
     [Wheel 100 30, Wheel 250 45, Wheel 499 (- 60), TimerFires 503, Wheel 510 (- 25), Wheel 900 80])
   \<and> onWheel 250 45 (fst (onWheel 100 30 listener_init)) = (fst (onWheel 100 30 listener_init), None)"
proof -
  have f: "feasible 0 listener_init
     [Wheel 100 30, Wheel 250 45, Wheel 499 (- 60), TimerFires 503, Wheel 510 (- 25), Wheel 900 80]"
    by (simp add: onWheel_def timer_fired_def listener_init_def)
  have n: "navigations listener_init
     [Wheel 100 30, Wheel 250 45, Wheel 499 (- 60), TimerFires 503, Wheel 510 (- 25), Wheel 900 80]
     = [(100, Next), (510, Prev)]"
    by (simp add: onWheel_def timer_fired_def listener_init_def)
  have t: "isThrottled (fst (onWheel 100 30 listener_init))"
    by (simp add: onWheel_def listener_init_def)
  from wheel_throttle [OF f, of "fst (onWheel 100 30 listener_init)" 250 45] f n t
  show ?thesis by simp
qed

section \<open>Properties of the progress drivers\<close>

lemma step_progress: "progress (fst (step now s)) = min 1 ((now - startTs s) / 5000)"
  by (simp add: step_def Let_def)

lemma step_done:
  "5000 \<le> now - startTs s \<Longrightarrow> step now s = (s\<lparr>progress := 1, raf_pending := False\<rparr>, Some Next)"
  by (simp add: step_def Let_def min_def)

lemma step_running:
  "now - startTs s < 5000 \<Longrightarrow>
   step now s = (s\<lparr>progress := (now - startTs s) / 5000, raf_pending := True\<rparr>, None)"
  by (simp add: step_def Let_def min_def)

lemma frames_idle: "\<not> raf_pending s \<Longrightarrow> frames n ts s = []"
  by (induction ts) (simp_all add: frame_def)

lemma frames_pending:
  "raf_pending s \<Longrightarrow>
   frames n ts s = (if \<exists>t \<in> set ts. startTs s + 5000 \<le> t then [Next] else [])"
proof (induction ts arbitrary: s)
  case Nil
  then show ?case by simp
next
  case (Cons t ts)
  show ?case
  proof (cases "5000 \<le> t - startTs s")
    case True
    with Cons.prems have "frames n (t # ts) s = [Next]"
      by (simp add: frame_def step_done frames_idle)
    moreover from True have "startTs s + 5000 \<le> t" by simp
    ultimately show ?thesis by simp
  next
    case False
    define s' where "s' = s\<lparr>progress := (t - startTs s) / 5000, raf_pending := True\<rparr>"
    from False Cons.prems have "frames n (t # ts) s = frames n ts (s'\<lparr>index := index s'\<rparr>)"
      by (simp add: frame_def step_running invoke_def s'_def)
    also have "s'\<lparr>index := index s'\<rparr> = s'" by simp
    also have "frames n ts s' = (if \<exists>t \<in> set ts. startTs s' + 5000 \<le> t then [Next] else [])"
      by (rule Cons.IH) (simp add: s'_def)
    finally show ?thesis
      using False by (simp add: s'_def)
  qed
qed

text \<open>
  Claim C2 (photo page): each frame sets \<^verbatim>\<open>progress\<close> to
  \<open>min 1 ((now - start) / 5000)\<close>. A frame whose progress reaches 1 invokes
  \<^verbatim>\<open>next()\<close> and requests no further frame; any other frame invokes nothing and
  requests the next frame. Hence among the frames that follow one run of the effect,
  whatever their times, \<^verbatim>\<open>next()\<close> is invoked exactly once if some frame comes
  5000ms or more after the start, and not at all otherwise.
\<close>

theorem photo_timer:
  "progress (fst (step now s)) = min 1 ((now - startTs s) / 5000)
   \<and> (progress (fst (step now s)) = 1 \<longrightarrow>
        snd (step now s) = Some Next \<and> \<not> raf_pending (fst (step now s)))
   \<and> (progress (fst (step now s)) < 1 \<longrightarrow>
        snd (step now s) = None \<and> raf_pending (fst (step now s)))
   \<and> frames n ts (index_effect start s0)
        = (if \<exists>t \<in> set ts. start + 5000 \<le> t then [Next] else [])"
proof -
  have "frames n ts (index_effect start s0)
      = (if \<exists>t \<in> set ts. startTs (index_effect start s0) + 5000 \<le> t then [Next] else [])"
    by (rule frames_pending) (simp add: index_effect_def)
  then have "frames n ts (index_effect start s0)
      = (if \<exists>t \<in> set ts. start + 5000 \<le> t then [Next] else [])"
    by (simp add: index_effect_def)
  moreover have "progress (fst (step now s)) = 1 \<longrightarrow>
        snd (step now s) = Some Next \<and> \<not> raf_pending (fst (step now s))"
    by (simp add: step_def Let_def)
  moreover have "progress (fst (step now s)) < 1 \<longrightarrow>
        snd (step now s) = None \<and> raf_pending (fst (step now s))"
    by (simp add: step_def Let_def)
  ultimately show ?thesis
    by (simp add: step_progress)
qed

theorem photo_timer_witness:
  "progress (fst (step 3500 (index_effect 1000
      \<lparr>index = 2, input = listener_init, progress = 1, startTs = 0, raf_pending = False\<rparr>))) = 1 / 2
   \<and> frames 4 [1016, 3500, 5999, 6000, 6016, 7000] (index_effect 1000
      \<lparr>index = 2, input = listener_init, progress = 1, startTs = 0, raf_pending = False\<rparr>) = [Next]
   \<and> frames 4 [1016, 3500, 5999] (index_effect 1000
      \<lparr>index = 2, input = listener_init, progress = 1, startTs = 0, raf_pending = False\<rparr>) = []"
  using photo_timer [of 3500 "index_effect 1000
      \<lparr>index = 2, input = listener_init, progress = 1, startTs = 0, raf_pending = False\<rparr>"
      4 "[1016, 3500, 5999, 6000, 6016, 7000]" 1000
      "\<lparr>index = 2, input = listener_init, progress = 1, startTs = 0, raf_pending = False\<rparr>"]
    photo_timer [of 3500 "index_effect 1000
      \<lparr>index = 2, input = listener_init, progress = 1, startTs = 0, raf_pending = False\<rparr>"
      4 "[1016, 3500, 5999]" 1000
      "\<lparr>index = 2, input = listener_init, progress = 1, startTs = 0, raf_pending = False\<rparr>"]
  by (simp add: index_effect_def)






lemma segment_frames_pending:
  "seg_raf_pending sg \<Longrightarrow> seg_raf_pending (segment_frames vs sg)"
  by (induction vs arbitrary: sg) (simp_all add: segment_frame_def update_def)





text \<open>
  Claim C8: whenever the index changes, progress is reset to 0 together with the
  change, so that the previous item's progress is never rendered after a switch. The
  video page keeps this: a segment renders \<^verbatim>\<open>active ? progress * 100 : 0\<close> and
  resets its own progress when it turns inactive, so a segment that turns active again
  is drawn at 0. The photo page does not: its callbacks only set the index and the
  reset is left to the effect, which runs after the render that shows the new index.
  With the first of four photos half-way through, the render that follows a click on
  Next draws the bars at 100, 50, 0 and 0 percent, the second bar showing the first
  photo's progress, before the effect resets it; when the timer completes, the frame
  that invokes \<^verbatim>\<open>next()\<close> leaves progress 1 and the render draws the second bar at
  100 percent.
\<close>

theorem photo_stale_progress:
  "index (click_next 4
      \<lparr>index = 0, input = listener_init, progress = 1 / 2, startTs = 0, raf_pending = True\<rparr>) = 1
   \<and> progress (click_next 4
      \<lparr>index = 0, input = listener_init, progress = 1 / 2, startTs = 0, raf_pending = True\<rparr>) = 1 / 2
   \<and> fst (commit 4 7000 0 (click_next 4
      \<lparr>index = 0, input = listener_init, progress = 1 / 2, startTs = 0, raf_pending = True\<rparr>))
       = [100, 50, 0, 0]
   \<and> progress (snd (commit 4 7000 0 (click_next 4
      \<lparr>index = 0, input = listener_init, progress = 1 / 2, startTs = 0, raf_pending = True\<rparr>))) = 0
   \<and> index (fst (frame 4 5000
      \<lparr>index = 0, input = listener_init, progress = 1 / 2, startTs = 0, raf_pending = True\<rparr>)) = 1
   \<and> fst (commit 4 5016 0 (fst (frame 4 5000
      \<lparr>index = 0, input = listener_init, progress = 1 / 2, startTs = 0, raf_pending = True\<rparr>)))
       = [100, 100, 0, 0]
   \<and> seg_progress (segment_frames [\<lparr>currentTime = 6, duration = Num 12\<rparr>]
        (segment_effect True (Some \<lparr>currentTime = 0, duration = Num 12\<rparr>) segment_init))
       = Num (1 / 2)
   \<and> segment_width True (segment_effect False (Some \<lparr>currentTime = 6, duration = Num 12\<rparr>)
        (segment_frames [\<lparr>currentTime = 6, duration = Num 12\<rparr>]
          (segment_effect True (Some \<lparr>currentTime = 0, duration = Num 12\<rparr>) segment_init)))
       = Num 0"
  by (simp add: click_next_def commit_def bar_width_def index_effect_def frame_def step_def
      invoke_def nav_eval segment_effect_def segment_frame_def segment_init_def update_def
      update_value_def clamped_duration_def segment_width_def upto.simps)

theorem photo_stale_progress_witness:
  "hd (tl (fst (commit 4 7000 0 (click_next 4
      \<lparr>index = 0, input = listener_init, progress = 1 / 2, startTs = 0, raf_pending = True\<rparr>))))
     = 50"
  using photo_stale_progress by simp

end
